theory Spec2Isabelle
  imports
    Complex_Main
    "HOL-Library.Multiset"
    "HOL-Library.Char_ord"
    "HOL-Library.List_Lexorder"
begin

section \<open>The weather dashboard pipeline of app.py\<close>

text \<open>
  The script app.py fetches hourly observations per city, caches each fetch for 300
  seconds, merges the per-city tables and derives a few views. This theory embeds the
  fetch, the cache, the fetch loop and the views read by the properties below.

  Conventions.
  \<^item> A pandas DataFrame is a list of rows in positional order, each row paired with its
    index label.
  \<^item> Python floats are idealised as reals (no NaN). A timestamp produced by
    \<^verbatim>\<open>pd.to_datetime\<close> is the real number of its instant; only its order is used.
  \<^item> City names are strings ordered lexicographically by character code, as Python
    orders \<^verbatim>\<open>str\<close>.
  \<^item> An exception is a value of type \<open>exn\<close> on the left of a sum.
  \<^item> The clock is a natural number of seconds, passed to each cached call.
\<close>

subsection \<open>Data\<close>

record obs =
  city :: string
  time :: real
  temp :: real
  windspeed :: real
  winddirection :: real

type_synonym frame = "(nat \<times> obs) list"

datatype exn =
    ConnectionError
  | ReadTimeout
  | HTTPError nat
  | JSONDecodeError
  | KeyError string
  | ValueError

text \<open>
  The \<^verbatim>\<open>hourly\<close> object of a response: the items of a JSON object whose values are
  arrays. The payload is \<open>None\<close> when the response object has no (or a null)
  \<^verbatim>\<open>hourly\<close> member.
\<close>

type_synonym hourly = "(string \<times> real list) list"

datatype body = NotJSON | JSON "hourly option"

datatype http_result = ConnectFailed | TimedOut | Response nat body

text \<open>A request is determined by latitude, longitude and past days (lines 71-77).\<close>

type_synonym request = "real \<times> real \<times> nat"

type_synonym network = "request \<Rightarrow> nat \<Rightarrow> http_result"

subsection \<open>City registry (lines 23-28)\<close>

definition CITIES :: "(string \<times> real \<times> real) list" where
  "CITIES =
    [(''Riyadh'', 24.7136, 46.6753),
     (''Jeddah'', 21.4858, 39.1925),
     (''Dammam'', 26.3927, 49.9777),
     (''Abha'', 18.2465, 42.5117)]"

subsection \<open>Fetcher (lines 66-99)\<close>

text \<open>\<^verbatim>\<open>hourly[k]\<close>: a missing key raises KeyError.\<close>

definition getitem :: "hourly \<Rightarrow> string \<Rightarrow> exn + real list" where
  "getitem h k = (case map_of h k of None \<Rightarrow> Inl (KeyError k) | Some v \<Rightarrow> Inr v)"

text \<open>
  \<^verbatim>\<open>pd.DataFrame({"city": c, "time": ..., "temp": ..., ...})\<close> (lines 92-98): the scalar
  city is broadcast; arrays of different lengths raise ValueError; otherwise row i pairs
  the i-th elements and carries the label i.
\<close>

definition DataFrame :: "string \<Rightarrow> real list \<Rightarrow> real list \<Rightarrow> real list \<Rightarrow> real list \<Rightarrow> exn + frame" where
  "DataFrame c tms temps winds winddirs =
    (if length temps = length tms \<and> length winds = length tms
        \<and> length winddirs = length tms
     then Inr (enumerate 0
            (map (\<lambda>(t, x, w, d).
                    \<lparr>city = c, time = t, temp = x, windspeed = w, winddirection = d\<rparr>)
               (zip tms (zip temps (zip winds winddirs)))))
     else Inl ValueError)"

text \<open>Lines 83-99: what the fetcher does with the decoded JSON object.\<close>

definition parse_hourly :: "string \<Rightarrow> hourly option \<Rightarrow> exn + frame" where
  "parse_hourly city_name data =
    (case data of
       None \<Rightarrow> Inr []
     | Some h \<Rightarrow>
        if h = [] then Inr []
        else
          (case getitem h ''time'' of Inl e \<Rightarrow> Inl e | Inr tms \<Rightarrow>
          (case getitem h ''temperature_2m'' of Inl e \<Rightarrow> Inl e | Inr temps \<Rightarrow>
          (case getitem h ''windspeed_10m'' of Inl e \<Rightarrow> Inl e | Inr winds \<Rightarrow>
          (case getitem h ''winddirection_10m'' of Inl e \<Rightarrow> Inl e | Inr winddirs \<Rightarrow>
             DataFrame city_name tms temps winds winddirs)))))"

text \<open>
  The body of \<^verbatim>\<open>fetch_city_hourly\<close>, without its cache: the request (line 79),
  \<^verbatim>\<open>raise_for_status\<close> (line 80), \<^verbatim>\<open>resp.json()\<close> (line 81), then the parse.
\<close>

definition fetch_city_hourly :: "network \<Rightarrow> nat \<Rightarrow> string \<Rightarrow> real \<Rightarrow> real \<Rightarrow> nat \<Rightarrow> exn + frame" where
  "fetch_city_hourly net now city_name lat lon days_back =
    (case net (lat, lon, days_back) now of
       ConnectFailed \<Rightarrow> Inl ConnectionError
     | TimedOut \<Rightarrow> Inl ReadTimeout
     | Response status b \<Rightarrow>
        if 400 \<le> status \<and> status < 600 then Inl (HTTPError status)
        else (case b of
                NotJSON \<Rightarrow> Inl JSONDecodeError
              | JSON data \<Rightarrow> parse_hourly city_name data))"

subsection \<open>Cache (line 65, lines 101-103)\<close>

text \<open>
  \<^verbatim>\<open>@st.cache_data(ttl=300)\<close>: results are stored under the call's arguments with the
  time of creation; an entry is served while the clock is before creation plus ttl; an
  exception is not stored. \<open>calls\<close> counts the requests issued at line 79.
\<close>

type_synonym key = "string \<times> real \<times> real \<times> nat"

record world =
  cache :: "key \<Rightarrow> (nat \<times> frame) option"
  calls :: nat

definition ttl :: nat where
  "ttl = 300"

definition lookup_live :: "world \<Rightarrow> nat \<Rightarrow> key \<Rightarrow> frame option" where
  "lookup_live w now k =
    (case cache w k of
       None \<Rightarrow> None
     | Some (created, v) \<Rightarrow> if now < created + ttl then Some v else None)"

definition cached_fetch_city_hourly :: "network \<Rightarrow> nat \<Rightarrow> key \<Rightarrow> world \<Rightarrow> (exn + frame) \<times> world" where
  "cached_fetch_city_hourly net now k w =
    (case lookup_live w now k of
       Some v \<Rightarrow> (Inr v, w)
     | None \<Rightarrow>
        (case k of (city_name, lat, lon, days_back) \<Rightarrow>
          (case fetch_city_hourly net now city_name lat lon days_back of
             Inl e \<Rightarrow> (Inl e, w\<lparr>calls := calls w + 1\<rparr>)
           | Inr v \<Rightarrow> (Inr v, w\<lparr>cache := (cache w)(k \<mapsto> (now, v)), calls := calls w + 1\<rparr>))))"

text \<open>\<^verbatim>\<open>fetch_city_hourly.clear()\<close> (line 103).\<close>

definition clear :: "world \<Rightarrow> world" where
  "clear w = w\<lparr>cache := (\<lambda>k. None)\<rparr>"

subsection \<open>Fetch loop (lines 108-116)\<close>

text \<open>
  \<^verbatim>\<open>CITIES[city]\<close> is outside the \<^verbatim>\<open>try\<close>: an unknown city ends the script with
  KeyError. Inside the \<^verbatim>\<open>try\<close>, a non-empty table is appended to \<^verbatim>\<open>all_dfs\<close>, an
  empty one is dropped, and an exception is reported with \<^verbatim>\<open>st.error\<close> (recorded
  here as the pair of city and exception). The loop reads the clock once: a run is
  short against the 300 seconds of the cache.
\<close>

fun fetch_loop :: "network \<Rightarrow> nat \<Rightarrow> nat \<Rightarrow> string list \<Rightarrow> frame list \<Rightarrow> (string \<times> exn) list \<Rightarrow> world
    \<Rightarrow> exn + (frame list \<times> (string \<times> exn) list \<times> world)" where
  "fetch_loop net now days_back [] all_dfs errs w = Inr (all_dfs, errs, w)"
| "fetch_loop net now days_back (c # cs) all_dfs errs w =
    (case map_of CITIES c of
       None \<Rightarrow> Inl (KeyError c)
     | Some (lat, lon) \<Rightarrow>
        (case cached_fetch_city_hourly net now (c, lat, lon, days_back) w of
           (Inr df_city, w') \<Rightarrow>
             fetch_loop net now days_back cs
               (if df_city \<noteq> [] then all_dfs @ [df_city] else all_dfs) errs w'
         | (Inl e, w') \<Rightarrow>
             fetch_loop net now days_back cs all_dfs (errs @ [(c, e)]) w'))"

subsection \<open>Merge and views (lines 122-177)\<close>

text \<open>\<^verbatim>\<open>pd.concat(all_dfs, ignore_index=True)\<close>: rows in order, relabelled 0..n-1.\<close>

definition concat_ignore_index :: "frame list \<Rightarrow> frame" where
  "concat_ignore_index dfs = enumerate 0 (map snd (concat dfs))"

text \<open>
  \<^verbatim>\<open>sort_values\<close> reorders the rows by one column and keeps their labels. It is
  modelled by the stable insertion sort \<open>sort_key\<close>; pandas' default
  \<^verbatim>\<open>kind='quicksort'\<close> promises no order among rows with equal keys.
\<close>

definition sort_values_time :: "frame \<Rightarrow> frame" where
  "sort_values_time df = sort_key (\<lambda>r. time (snd r)) df"

definition sort_values_city :: "frame \<Rightarrow> frame" where
  "sort_values_city df = sort_key (\<lambda>r. city (snd r)) df"

text \<open>
  \<^verbatim>\<open>Series.idxmax()\<close>: the label of the first row, in positional order, that holds
  the maximum; ValueError on an empty series.
\<close>

fun idxmax_from :: "('a \<Rightarrow> real) \<Rightarrow> nat \<times> 'a \<Rightarrow> (nat \<times> 'a) list \<Rightarrow> nat" where
  "idxmax_from col best [] = fst best"
| "idxmax_from col best (r # rs) =
    (if col (snd best) < col (snd r) then idxmax_from col r rs
     else idxmax_from col best rs)"

definition idxmax :: "('a \<Rightarrow> real) \<Rightarrow> (nat \<times> 'a) list \<Rightarrow> exn + nat" where
  "idxmax col df = (case df of [] \<Rightarrow> Inl ValueError | r # rs \<Rightarrow> Inr (idxmax_from col r rs))"

text \<open>\<^verbatim>\<open>df.loc[label]\<close>: the row carrying the label; KeyError when there is none.\<close>

definition loc :: "frame \<Rightarrow> nat \<Rightarrow> exn + obs" where
  "loc df l = (case map_of df l of None \<Rightarrow> Inl (KeyError ''label'') | Some r \<Rightarrow> Inr r)"

text \<open>
  \<^verbatim>\<open>groupby("city", as_index=False).tail(1)\<close>: the last row of every city, in the
  positional order of the table.
\<close>

fun groupby_city_tail1 :: "frame \<Rightarrow> frame" where
  "groupby_city_tail1 [] = []"
| "groupby_city_tail1 (r # rs) =
    (if city (snd r) \<in> set (map (\<lambda>q. city (snd q)) rs) then groupby_city_tail1 rs
     else r # groupby_city_tail1 rs)"

text \<open>Lines 172-177.\<close>

definition latest_rows :: "frame \<Rightarrow> frame" where
  "latest_rows df = sort_values_city (groupby_city_tail1 (sort_values_time df))"

record views =
  df :: frame
  num_cities :: nat
  num_records :: nat
  hottest_row :: obs
  windiest_row :: obs
  latest :: frame

datatype outcome =
    Uncaught exn
  | NoSelection
  | NoData "(string \<times> exn) list"
  | Derived views "(string \<times> exn) list"

text \<open>
  Lines 122-177 on a non-empty \<^verbatim>\<open>all_dfs\<close>. The calendar columns (lines 126-127), the
  means and the pivots are not read by the properties below and are left out.
\<close>

definition derive :: "frame list \<Rightarrow> exn + views" where
  "derive all_dfs =
    (let merged = sort_values_time (concat_ignore_index all_dfs) in
     case idxmax temp merged of Inl e \<Rightarrow> Inl e | Inr hi \<Rightarrow>
     (case loc merged hi of Inl e \<Rightarrow> Inl e | Inr hottest \<Rightarrow>
     (case idxmax windspeed merged of Inl e \<Rightarrow> Inl e | Inr wi \<Rightarrow>
     (case loc merged wi of Inl e \<Rightarrow> Inl e | Inr windiest \<Rightarrow>
       Inr \<lparr>df = merged,
            num_cities = card (set (map (\<lambda>r. city (snd r)) merged)),
            num_records = length merged,
            hottest_row = hottest,
            windiest_row = windiest,
            latest = latest_rows merged\<rparr>))))"

text \<open>Lines 108-177: the fetch loop, the stop on no data, then the views.\<close>

definition build :: "network \<Rightarrow> nat \<Rightarrow> string list \<Rightarrow> nat \<Rightarrow> world \<Rightarrow> outcome \<times> world" where
  "build net now selected_cities days_back w =
    (case fetch_loop net now days_back selected_cities [] [] w of
       Inl e \<Rightarrow> (Uncaught e, w)
     | Inr (all_dfs, errs, w') \<Rightarrow>
        if all_dfs = [] then (NoData errs, w')
        else (case derive all_dfs of
                Inl e \<Rightarrow> (Uncaught e, w')
              | Inr v \<Rightarrow> (Derived v errs, w')))"

text \<open>
  The whole script: the stop on an empty selection (lines 58-60) comes before the
  refresh (lines 102-103).
\<close>

definition script :: "network \<Rightarrow> nat \<Rightarrow> string list \<Rightarrow> nat \<Rightarrow> bool \<Rightarrow> world \<Rightarrow> outcome \<times> world" where
  "script net now selected_cities days_back refresh w =
    (if selected_cities = [] then (NoSelection, w)
     else build net now selected_cities days_back (if refresh then clear w else w))"

subsection \<open>What each city's fetch returns, for stating the properties\<close>

text \<open>
  The result of the cached fetch of one city on the world in which the run starts:
  \<open>Inl\<close> is a failure, \<open>Inr []\<close> an empty table.
\<close>

definition city_result :: "network \<Rightarrow> nat \<Rightarrow> nat \<Rightarrow> world \<Rightarrow> string \<Rightarrow> exn + frame" where
  "city_result net now days_back w c =
    (case map_of CITIES c of
       None \<Rightarrow> Inl (KeyError c)
     | Some (lat, lon) \<Rightarrow> fst (cached_fetch_city_hourly net now (c, lat, lon, days_back) w))"

text \<open>The non-empty tables of the cities that succeeded, in selection order.\<close>

definition successes :: "network \<Rightarrow> nat \<Rightarrow> nat \<Rightarrow> world \<Rightarrow> string list \<Rightarrow> frame list" where
  "successes net now days_back w cs =
    concat (map (\<lambda>c. case city_result net now days_back w c of
                        Inl e \<Rightarrow> []
                      | Inr f \<Rightarrow> if f \<noteq> [] then [f] else []) cs)"

text \<open>One warning per failing city, in selection order.\<close>

definition warnings :: "network \<Rightarrow> nat \<Rightarrow> nat \<Rightarrow> world \<Rightarrow> string list \<Rightarrow> (string \<times> exn) list" where
  "warnings net now days_back w cs =
    concat (map (\<lambda>c. case city_result net now days_back w c of
                        Inl e \<Rightarrow> [(c, e)]
                      | Inr f \<Rightarrow> []) cs)"


text \<open>
  The order of the specification for the merged table: by timestamp, and by city name
  among equal timestamps.
\<close>

definition sorted_by_time_then_city :: "frame \<Rightarrow> bool" where
  "sorted_by_time_then_city xs =
    sorted_wrt (\<lambda>a b. time (snd a) < time (snd b)
                  \<or> (time (snd a) = time (snd b) \<and> city (snd a) \<le> city (snd b))) xs"

subsection \<open>Concrete inputs\<close>

definition empty_world :: world where
  "empty_world = \<lparr>cache = (\<lambda>k. None), calls = 0\<rparr>"

definition ex_hourly :: "real list \<Rightarrow> real list \<Rightarrow> real list \<Rightarrow> real list \<Rightarrow> hourly" where
  "ex_hourly ts xs ws ds =
    [(''time'', ts), (''temperature_2m'', xs), (''windspeed_10m'', ws),
     (''winddirection_10m'', ds)]"

text \<open>
  Riyadh and Jeddah answer with two hours each, Dammam answers without an hourly
  series, every other request fails to connect.
\<close>

definition ex_net :: network where
  "ex_net = (\<lambda>(lat, lon, d) now.
      if lat = 24.7136 then Response 200 (JSON (Some (ex_hourly [0, 1] [41, 39] [3, 4] [90, 100])))
      else if lat = 21.4858 then Response 200 (JSON (Some (ex_hourly [0, 1] [38, 37] [9, 2] [10, 20])))
      else if lat = 26.3927 then Response 200 (JSON None)
      else ConnectFailed)"

text \<open>Riyadh and Jeddah answer with one row each, at the same hour.\<close>

definition tie_net :: network where
  "tie_net = (\<lambda>(lat, lon, d) now.
      if lat = 24.7136 then Response 200 (JSON (Some (ex_hourly [0] [41] [3] [90])))
      else if lat = 21.4858 then Response 200 (JSON (Some (ex_hourly [0] [38] [9] [10])))
      else ConnectFailed)"

text \<open>Every city answers with a temperature array one element short.\<close>

definition ragged_net :: network where
  "ragged_net = (\<lambda>req now. Response 200 (JSON (Some (ex_hourly [0, 1] [41] [3, 4] [90, 100]))))"

text \<open>No request connects.\<close>

definition dead_net :: network where
  "dead_net = (\<lambda>req now. ConnectFailed)"

definition ex_all_dfs :: "frame list" where
  "ex_all_dfs =
    [[(0, \<lparr>city = ''Riyadh'', time = 0, temp = 41, windspeed = 3, winddirection = 90\<rparr>),
      (1, \<lparr>city = ''Riyadh'', time = 1, temp = 39, windspeed = 4, winddirection = 100\<rparr>)],
     [(0, \<lparr>city = ''Jeddah'', time = 0, temp = 38, windspeed = 9, winddirection = 10\<rparr>),
      (1, \<lparr>city = ''Jeddah'', time = 1, temp = 37, windspeed = 2, winddirection = 20\<rparr>)]]"

section \<open>Auxiliary facts\<close>

lemma cached_fetch_stable:
  "fst (cached_fetch_city_hourly net now k (snd (cached_fetch_city_hourly net now k' w)))
     = fst (cached_fetch_city_hourly net now k w)"
  by (cases k; cases k')
     (auto simp: cached_fetch_city_hourly_def lookup_live_def ttl_def
           split: option.splits sum.splits prod.splits if_splits)

lemma fetch_loop_result:
  assumes "set cs \<subseteq> fst ` set CITIES"
    and "\<And>k. fst (cached_fetch_city_hourly net now k w) = fst (cached_fetch_city_hourly net now k w0)"
  shows "\<exists>w'. fetch_loop net now d cs acc errs w
            = Inr (acc @ successes net now d w0 cs, errs @ warnings net now d w0 cs, w')"
  using assms
proof (induction cs arbitrary: acc errs w)
  case Nil
  then show ?case by (simp add: successes_def warnings_def)
next
  case (Cons c cs)
  from Cons.prems(1) obtain lat lon where m: "map_of CITIES c = Some (lat, lon)"
    by (metis (no_types, lifting) insert_subset list.simps(15) map_of_eq_None_iff not_Some_eq prod.collapse)
  let ?k = "(c, lat, lon, d)"
  obtain r w1 where cf: "cached_fetch_city_hourly net now ?k w = (r, w1)"
    by (cases "cached_fetch_city_hourly net now ?k w")
  have inv: "\<And>k. fst (cached_fetch_city_hourly net now k w1) = fst (cached_fetch_city_hourly net now k w0)"
    using cached_fetch_stable[of net now _ ?k w] cf Cons.prems(2) by simp
  have r0: "city_result net now d w0 c = r"
    using m cf Cons.prems(2)[of ?k] by (simp add: city_result_def)
  from Cons.prems(1) have sub: "set cs \<subseteq> fst ` set CITIES" by simp
  show ?case
  proof (cases r)
    case (Inl e)
    from Cons.IH[OF sub inv, of acc "errs @ [(c, e)]"] show ?thesis
      using m cf Inl r0 by (simp add: successes_def warnings_def)
  next
    case (Inr f)
    from Cons.IH[OF sub inv, of "if f \<noteq> [] then acc @ [f] else acc" errs] show ?thesis
      using m cf Inr r0 by (cases "f = []") (simp_all add: successes_def warnings_def)
  qed
qed


lemma idxmax_from_split:
  "\<exists>pre r post. best # rs = pre @ r # post \<and> idxmax_from col best rs = fst r
      \<and> (\<forall>p\<in>set pre. col (snd p) < col (snd r))
      \<and> (\<forall>p\<in>set post. col (snd p) \<le> col (snd r))"
proof (induction rs arbitrary: best)
  case Nil
  show ?case by (rule exI[of _ "[]"], rule exI[of _ best], rule exI[of _ "[]"]) simp
next
  case (Cons x rs)
  show ?case
  proof (cases "col (snd best) < col (snd x)")
    case True
    from Cons.IH[of x] obtain pre r post where s: "x # rs = pre @ r # post"
      and i: "idxmax_from col x rs = fst r"
      and lo: "\<forall>p\<in>set pre. col (snd p) < col (snd r)"
      and hi: "\<forall>p\<in>set post. col (snd p) \<le> col (snd r)" by blast
    have "col (snd x) \<le> col (snd r)"
    proof (cases pre)
      case Nil with s show ?thesis by simp
    next
      case (Cons y ys) with s lo show ?thesis by auto
    qed
    with True have b: "col (snd best) < col (snd r)" by simp
    have j: "idxmax_from col best (x # rs) = fst r" using True i by simp
    have e: "best # x # rs = (best # pre) @ r # post" using s by simp
    show ?thesis
      by (rule exI[of _ "best # pre"], rule exI[of _ r], rule exI[of _ post])
         (use e j lo hi b in simp)
  next
    case False
    from Cons.IH[of best] obtain pre r post where s: "best # rs = pre @ r # post"
      and i: "idxmax_from col best rs = fst r"
      and lo: "\<forall>p\<in>set pre. col (snd p) < col (snd r)"
      and hi: "\<forall>p\<in>set post. col (snd p) \<le> col (snd r)" by blast
    show ?thesis
    proof (cases pre)
      case Nil
      with s have rb: "r = best" and pr: "post = rs" by simp_all
      have j: "idxmax_from col best (x # rs) = fst best" using False i rb by simp
      show ?thesis
        by (intro exI[of _ "[]"] exI[of _ best] exI[of _ "x # rs"])
           (use j hi False rb pr in auto)
    next
      case (Cons y ys)
      with s have y: "y = best" and rs: "rs = ys @ r # post" by simp_all
      from lo Cons y have "col (snd best) < col (snd r)" by simp
      with False have "col (snd x) < col (snd r)" by simp
      then have c: "col (snd x) < col (snd r)" .
      have j: "idxmax_from col best (x # rs) = fst r" using False i by simp
      have e: "best # x # rs = (best # x # ys) @ r # post" using rs by simp
      have lo': "\<forall>p\<in>set (best # x # ys). col (snd p) < col (snd r)"
        using lo Cons y c by simp
      show ?thesis
        by (intro exI[of _ "best # x # ys"] exI[of _ r] exI[of _ post])
           (use e j lo' hi in blast)
    qed
  qed
qed

lemma loc_distinct:
  "distinct (map fst xs) \<Longrightarrow> r \<in> set xs \<Longrightarrow> loc xs (fst r) = Inr (snd r)"
  by (cases r) (simp add: loc_def)

lemma sorted_split_after:
  "sorted (map f (pre @ r # post)) \<Longrightarrow> p \<in> set post \<Longrightarrow> f r \<le> f p"
  by (simp add: sorted_append)

lemma argmax_row:
  fixes xs :: frame
  assumes ne: "xs \<noteq> []" and d: "distinct (map fst xs)"
    and st: "sorted (map (\<lambda>r. time (snd r)) xs)"
  shows "\<exists>l h. idxmax col xs = Inr l \<and> loc xs l = Inr h \<and> h \<in> snd ` set xs
      \<and> (\<forall>q\<in>set xs. col (snd q) \<le> col h)
      \<and> (\<forall>q\<in>set xs. col (snd q) = col h \<longrightarrow> time h \<le> time (snd q))"
proof -
  from ne obtain b rs where xs: "xs = b # rs" by (cases xs) auto
  from idxmax_from_split[of b rs col] obtain pre r post where
    s: "b # rs = pre @ r # post" and i: "idxmax_from col b rs = fst r"
    and lo: "\<forall>p\<in>set pre. col (snd p) < col (snd r)"
    and hi: "\<forall>p\<in>set post. col (snd p) \<le> col (snd r)" by blast
  have mem: "r \<in> set xs" using xs s by simp
  have 1: "idxmax col xs = Inr (fst r)" using xs i by (simp add: idxmax_def)
  have 2: "loc xs (fst r) = Inr (snd r)" using loc_distinct[OF d mem] .
  have 3: "\<forall>q\<in>set xs. col (snd q) \<le> col (snd r)"
    using xs s lo hi by (auto simp: less_imp_le)
  have 4: "\<forall>q\<in>set xs. col (snd q) = col (snd r) \<longrightarrow> time (snd r) \<le> time (snd q)"
  proof (intro ballI impI)
    fix q assume q: "q \<in> set xs" and e: "col (snd q) = col (snd r)"
    from q xs s have "q \<in> set pre \<or> q = r \<or> q \<in> set post" by auto
    then show "time (snd r) \<le> time (snd q)"
    proof (elim disjE)
      assume "q \<in> set pre" with lo e show ?thesis by auto
    next
      assume "q = r" then show ?thesis by simp
    next
      assume "q \<in> set post"
      with st xs s show ?thesis
        using sorted_split_after[of "\<lambda>r. time (snd r)" pre r post q] by simp
    qed
  qed
  from 1 2 3 4 mem show ?thesis by (intro exI[of _ "fst r"] exI[of _ "snd r"]) auto
qed

lemma distinct_labels_concat: "distinct (map fst (concat_ignore_index dfs))"
  by (simp add: concat_ignore_index_def)

lemma sort_values_time_mset: "mset (sort_values_time xs) = mset xs"
  by (simp add: sort_values_time_def)

lemma sort_values_time_sorted: "sorted (map (\<lambda>r. time (snd r)) (sort_values_time xs))"
  by (simp add: sort_values_time_def)

lemma distinct_labels_sorted:
  "distinct (map fst xs) \<Longrightarrow> distinct (map fst (sort_values_time xs))"
  using sort_values_time_mset[of xs]
  by (metis mset_map mset_eq_imp_distinct_iff)

lemma rows_concat_ignore_index: "map snd (concat_ignore_index dfs) = map snd (concat dfs)"
  by (simp add: concat_ignore_index_def)


lemma derive_ok:
  assumes ne: "concat all_dfs \<noteq> []"
  shows "\<exists>v hl wl. derive all_dfs = Inr v
     \<and> df v = sort_values_time (concat_ignore_index all_dfs)
     \<and> latest v = latest_rows (df v)
     \<and> idxmax temp (df v) = Inr hl \<and> loc (df v) hl = Inr (hottest_row v)
     \<and> idxmax windspeed (df v) = Inr wl \<and> loc (df v) wl = Inr (windiest_row v)"
proof -
  let ?m = "sort_values_time (concat_ignore_index all_dfs)"
  have "map snd (concat_ignore_index all_dfs) \<noteq> []"
    using ne by (simp add: rows_concat_ignore_index)
  then have "concat_ignore_index all_dfs \<noteq> []" by auto
  then have m_ne: "?m \<noteq> []"
    using sort_values_time_mset[of "concat_ignore_index all_dfs"] by (metis mset_zero_iff)
  have m_d: "distinct (map fst ?m)"
    by (rule distinct_labels_sorted[OF distinct_labels_concat])
  have m_s: "sorted (map (\<lambda>r. time (snd r)) ?m)" by (rule sort_values_time_sorted)
  from argmax_row[OF m_ne m_d m_s, of temp] obtain hl h where
    h: "idxmax temp ?m = Inr hl" "loc ?m hl = Inr h" by blast
  from argmax_row[OF m_ne m_d m_s, of windspeed] obtain wl x where
    x: "idxmax windspeed ?m = Inr wl" "loc ?m wl = Inr x" by blast
  show ?thesis using h x by (simp add: derive_def Let_def)
qed

lemma extreme_row:
  fixes xs :: frame
  assumes d: "distinct (map fst xs)"
    and st: "sorted (map (\<lambda>r. time (snd r)) xs)"
    and i: "idxmax col xs = Inr l" and lc: "loc xs l = Inr h"
  shows "h \<in> snd ` set xs
      \<and> (\<forall>q\<in>set xs. col (snd q) \<le> col h)
      \<and> (\<forall>q\<in>set xs. col (snd q) = col h \<longrightarrow> time h \<le> time (snd q))"
proof -
  from i have ne: "xs \<noteq> []" by (auto simp: idxmax_def)
  from argmax_row[OF ne d st, of col] i lc show ?thesis by auto
qed

lemma tail1_subset: "set (groupby_city_tail1 xs) \<subseteq> set xs"
  by (induction xs) auto

lemma tail1_cities:
  "(\<lambda>q. city (snd q)) ` set (groupby_city_tail1 xs) = (\<lambda>q. city (snd q)) ` set xs"
  by (induction xs) auto

lemma tail1_distinct: "distinct (map (\<lambda>q. city (snd q)) (groupby_city_tail1 xs))"
proof (induction xs)
  case Nil
  show ?case by simp
next
  case (Cons r xs)
  have "city (snd r) \<notin> (\<lambda>q. city (snd q)) ` set xs
      \<Longrightarrow> city (snd r) \<notin> (\<lambda>q. city (snd q)) ` set (groupby_city_tail1 xs)"
    using tail1_cities[of xs] by simp
  with Cons show ?case by auto
qed

lemma tail1_last:
  "r \<in> set (groupby_city_tail1 xs) \<Longrightarrow>
     \<exists>pre post. xs = pre @ r # post \<and> (\<forall>q\<in>set post. city (snd q) \<noteq> city (snd r))"
proof (induction xs)
  case Nil
  then show ?case by simp
next
  case (Cons x xs)
  show ?case
  proof (cases "r \<in> set (groupby_city_tail1 xs)")
    case True
    from Cons.IH[OF True] obtain pre post where
      a: "xs = pre @ r # post" and b: "\<forall>q\<in>set post. city (snd q) \<noteq> city (snd r)" by blast
    show ?thesis
      by (rule exI[of _ "x # pre"], rule exI[of _ post]) (use a b in simp)
  next
    case False
    have in_x: "city (snd x) \<notin> set (map (\<lambda>q. city (snd q)) xs)"
    proof
      assume "city (snd x) \<in> set (map (\<lambda>q. city (snd q)) xs)"
      then have "groupby_city_tail1 (x # xs) = groupby_city_tail1 xs" by simp
      with Cons.prems False show False by simp
    qed
    then have "groupby_city_tail1 (x # xs) = x # groupby_city_tail1 xs" by simp
    with Cons.prems False have rx: "r = x" by simp
    have nin: "\<forall>q\<in>set xs. city (snd q) \<noteq> city (snd x)"
    proof
      fix q assume "q \<in> set xs"
      then have "city (snd q) \<in> set (map (\<lambda>q. city (snd q)) xs)" by simp
      with in_x show "city (snd q) \<noteq> city (snd x)" by metis
    qed
    show ?thesis
      by (rule exI[of _ "[]"], rule exI[of _ xs]) (use rx nin in simp)
  qed
qed

lemma latest_rows_spec:
  "distinct (map (\<lambda>q. city (snd q)) (latest_rows xs))
   \<and> (\<lambda>q. city (snd q)) ` set (latest_rows xs) = (\<lambda>q. city (snd q)) ` set xs
   \<and> (\<forall>r\<in>set (latest_rows xs). r \<in> set xs
        \<and> (\<forall>q\<in>set xs. city (snd q) = city (snd r) \<longrightarrow> time (snd q) \<le> time (snd r)))"
proof -
  let ?s = "sort_values_time xs"
  let ?g = "groupby_city_tail1 ?s"
  have ms: "mset (latest_rows xs) = mset ?g"
    by (simp add: latest_rows_def sort_values_city_def)
  then have st: "set (latest_rows xs) = set ?g" by (rule mset_eq_setD)
  have ss: "set ?s = set xs" using sort_values_time_mset[of xs] by (rule mset_eq_setD)
  have "mset (map (\<lambda>q. city (snd q)) (latest_rows xs)) = mset (map (\<lambda>q. city (snd q)) ?g)"
    using ms by (metis mset_map)
  then have 1: "distinct (map (\<lambda>q. city (snd q)) (latest_rows xs))"
    using tail1_distinct[of ?s] by (metis mset_eq_imp_distinct_iff)
  have 2: "(\<lambda>q. city (snd q)) ` set (latest_rows xs) = (\<lambda>q. city (snd q)) ` set xs"
    using st ss tail1_cities[of ?s] by simp
  have 3: "\<forall>r\<in>set (latest_rows xs). r \<in> set xs
        \<and> (\<forall>q\<in>set xs. city (snd q) = city (snd r) \<longrightarrow> time (snd q) \<le> time (snd r))"
  proof (intro ballI conjI impI)
    fix r assume r: "r \<in> set (latest_rows xs)"
    then have rg: "r \<in> set ?g" using st by simp
    then show "r \<in> set xs" using tail1_subset[of ?s] ss by auto
    fix q assume q: "q \<in> set xs" and c: "city (snd q) = city (snd r)"
    from tail1_last[OF rg] obtain pre post where
      sp: "?s = pre @ r # post" and np: "\<forall>q\<in>set post. city (snd q) \<noteq> city (snd r)" by blast
    from q ss sp have "q \<in> set pre \<or> q = r \<or> q \<in> set post" by auto
    with np c have "q \<in> set pre \<or> q = r" by auto
    moreover have "sorted (map (\<lambda>r. time (snd r)) (pre @ r # post))"
      using sort_values_time_sorted[of xs] sp by simp
    ultimately show "time (snd q) \<le> time (snd r)"
      by (auto simp: sorted_append)
  qed
  from 1 2 3 show ?thesis by blast
qed

lemma latest_rows_sorted: "sorted (map (\<lambda>q. city (snd q)) (latest_rows xs))"
  by (simp add: latest_rows_def sort_values_city_def)

lemma build_fst:
  assumes "set sel \<subseteq> fst ` set CITIES"
  shows "fst (build net now sel d w) =
    (if successes net now d w sel = [] then NoData (warnings net now d w sel)
     else (case derive (successes net now d w sel) of
             Inl e \<Rightarrow> Uncaught e
           | Inr v \<Rightarrow> Derived v (warnings net now d w sel)))"
proof -
  from fetch_loop_result[OF assms, of net now w w d "[]" "[]"] obtain w' where
    "fetch_loop net now d sel [] [] w
       = Inr (successes net now d w sel, warnings net now d w sel, w')" by auto
  then show ?thesis by (simp add: build_def split: sum.splits)
qed

lemma successes_nonempty_rows:
  assumes "c \<in> set sel" "city_result net now d w c = Inr f" "f \<noteq> []"
  shows "concat (successes net now d w sel) \<noteq> []"
  using assms by (induction sel) (auto simp: successes_def split: sum.splits)

lemma successes_skip:
  assumes "\<exists>e. city_result net now d w c = Inl e \<or> city_result net now d w c = Inr []"
  shows "successes net now d w (removeAll c sel) = successes net now d w sel"
  using assms by (induction sel) (auto simp: successes_def split: sum.splits)

lemma warnings_skip:
  assumes "city_result net now d w c = Inr f"
  shows "warnings net now d w (removeAll c sel) = warnings net now d w sel"
  using assms by (induction sel) (auto simp: warnings_def split: sum.splits)

lemma warnings_of_city:
  assumes "distinct sel" "c \<in> set sel" "city_result net now d w c = Inl e"
  shows "filter (\<lambda>p. fst p = c) (warnings net now d w sel) = [(c, e)]"
  using assms
proof (induction sel)
  case Nil
  then show ?case by simp
next
  case (Cons x xs)
  have none: "c \<notin> set ys \<Longrightarrow> filter (\<lambda>p. fst p = c) (warnings net now d w ys) = []" for ys
    by (induction ys) (auto simp: warnings_def split: sum.splits)
  show ?case
  proof (cases "x = c")
    case True
    with Cons.prems have "c \<notin> set xs" by simp
    from none[OF this] True Cons.prems(3) show ?thesis by (simp add: warnings_def)
  next
    case False
    with Cons.prems have "distinct xs" "c \<in> set xs" by simp_all
    from Cons.IH[OF this Cons.prems(3)] False show ?thesis
      by (auto simp: warnings_def split: sum.splits)
  qed
qed


lemma script_runs_build:
  "selected_cities \<noteq> [] \<Longrightarrow>
     script net now selected_cities days_back refresh w
       = build net now selected_cities days_back (if refresh then clear w else w)"
  by (simp add: script_def)

lemmas fetch_defs = fetch_city_hourly_def parse_hourly_def getitem_def DataFrame_def ex_hourly_def

lemmas cache_defs = city_result_def CITIES_def cached_fetch_city_hourly_def lookup_live_def
  empty_world_def

lemmas view_defs = derive_def concat_ignore_index_def sort_values_time_def sort_values_city_def
  idxmax_def loc_def latest_rows_def Let_def

section \<open>The concrete inputs, evaluated\<close>

lemma ex_riyadh:
  "city_result ex_net 1000 3 empty_world ''Riyadh'' =
     Inr [(0, \<lparr>city = ''Riyadh'', time = 0, temp = 41, windspeed = 3, winddirection = 90\<rparr>),
          (1, \<lparr>city = ''Riyadh'', time = 1, temp = 39, windspeed = 4, winddirection = 100\<rparr>)]"
  by (simp add: cache_defs fetch_defs ex_net_def)

lemma ex_jeddah:
  "city_result ex_net 1000 3 empty_world ''Jeddah'' =
     Inr [(0, \<lparr>city = ''Jeddah'', time = 0, temp = 38, windspeed = 9, winddirection = 10\<rparr>),
          (1, \<lparr>city = ''Jeddah'', time = 1, temp = 37, windspeed = 2, winddirection = 20\<rparr>)]"
  by (simp add: cache_defs fetch_defs ex_net_def)

lemma ex_dammam: "city_result ex_net 1000 3 empty_world ''Dammam'' = Inr []"
  by (simp add: cache_defs fetch_defs ex_net_def)

lemma ex_abha: "city_result ex_net 1000 3 empty_world ''Abha'' = Inl ConnectionError"
  by (simp add: cache_defs fetch_defs ex_net_def)

lemma ex_successes:
  "successes ex_net 1000 3 empty_world [''Riyadh'', ''Jeddah'', ''Dammam'', ''Abha''] = ex_all_dfs"
  by (simp add: successes_def ex_riyadh ex_jeddah ex_dammam ex_abha ex_all_dfs_def)

lemma ex_derive:
  "derive ex_all_dfs = Inr
     \<lparr>df = [(0, \<lparr>city = ''Riyadh'', time = 0, temp = 41, windspeed = 3, winddirection = 90\<rparr>),
            (2, \<lparr>city = ''Jeddah'', time = 0, temp = 38, windspeed = 9, winddirection = 10\<rparr>),
            (1, \<lparr>city = ''Riyadh'', time = 1, temp = 39, windspeed = 4, winddirection = 100\<rparr>),
            (3, \<lparr>city = ''Jeddah'', time = 1, temp = 37, windspeed = 2, winddirection = 20\<rparr>)],
      num_cities = 2, num_records = 4,
      hottest_row = \<lparr>city = ''Riyadh'', time = 0, temp = 41, windspeed = 3, winddirection = 90\<rparr>,
      windiest_row = \<lparr>city = ''Jeddah'', time = 0, temp = 38, windspeed = 9, winddirection = 10\<rparr>,
      latest = [(3, \<lparr>city = ''Jeddah'', time = 1, temp = 37, windspeed = 2, winddirection = 20\<rparr>),
                (1, \<lparr>city = ''Riyadh'', time = 1, temp = 39, windspeed = 4, winddirection = 100\<rparr>)]\<rparr>"
  by (simp add: view_defs ex_all_dfs_def card_insert_if)

lemma ex_warnings:
  "warnings ex_net 1000 3 empty_world [''Riyadh'', ''Jeddah'', ''Dammam'', ''Abha'']
     = [(''Abha'', ConnectionError)]"
  by (simp add: warnings_def ex_riyadh ex_jeddah ex_dammam ex_abha)

section \<open>Cache\<close>



text \<open>
  C6. When a call misses the cache and its fetch succeeds, a second call with the same
  arguments less than 300 seconds after it returns the stored table and issues no
  request, whatever the network would answer: the two calls issue one request.
\<close>

theorem second_call_within_ttl_hits_cache:
  assumes "lookup_live w t1 (c, lat, lon, d) = None"
    and "fetch_city_hourly net t1 c lat lon d = Inr v"
    and "t2 < t1 + 300"
  shows "fst (cached_fetch_city_hourly net t1 (c, lat, lon, d) w) = Inr v
    \<and> calls (snd (cached_fetch_city_hourly net t1 (c, lat, lon, d) w)) = calls w + 1
    \<and> cached_fetch_city_hourly net' t2 (c, lat, lon, d)
          (snd (cached_fetch_city_hourly net t1 (c, lat, lon, d) w))
        = (Inr v, snd (cached_fetch_city_hourly net t1 (c, lat, lon, d) w))"
  using assms by (simp add: cached_fetch_city_hourly_def lookup_live_def ttl_def)

theorem second_call_within_ttl_hits_cache_witness:
  "lookup_live empty_world 1000 (''Riyadh'', 24.7136, 46.6753, 3) = None
   \<and> fetch_city_hourly ex_net 1000 ''Riyadh'' 24.7136 46.6753 3 = Inr (hd ex_all_dfs)
   \<and> (1299::nat) < 1000 + 300
   \<and> calls (snd (cached_fetch_city_hourly ex_net 1000 (''Riyadh'', 24.7136, 46.6753, 3) empty_world)) = 1
   \<and> cached_fetch_city_hourly dead_net 1299 (''Riyadh'', 24.7136, 46.6753, 3)
          (snd (cached_fetch_city_hourly ex_net 1000 (''Riyadh'', 24.7136, 46.6753, 3) empty_world))
        = (Inr (hd ex_all_dfs),
           snd (cached_fetch_city_hourly ex_net 1000 (''Riyadh'', 24.7136, 46.6753, 3) empty_world))"
proof -
  have a: "lookup_live empty_world 1000 (''Riyadh'', 24.7136, 46.6753, 3) = None"
    by (simp add: lookup_live_def empty_world_def)
  have b: "fetch_city_hourly ex_net 1000 ''Riyadh'' 24.7136 46.6753 3 = Inr (hd ex_all_dfs)"
    by (simp add: fetch_city_hourly_def ex_net_def parse_hourly_def ex_hourly_def getitem_def
          DataFrame_def ex_all_dfs_def)
  have c: "(1299::nat) < 1000 + 300" by simp
  from second_call_within_ttl_hits_cache[OF a b c, of dead_net] a b c show ?thesis
    by (simp add: empty_world_def)
qed

section \<open>Fetcher\<close>

text \<open>
  C9. On a successful response whose hourly object holds the four arrays, the fetcher
  raises (ValueError, from the table constructor) when their lengths differ, and
  otherwise returns one row per index, row i pairing the i-th element of each array.
\<close>

theorem parallel_arrays_rows_or_error:
  assumes "net (lat, lon, d) now = Response status (JSON (Some h))"
    and "\<not> (400 \<le> status \<and> status < 600)"
    and "map_of h ''time'' = Some tms"
    and "map_of h ''temperature_2m'' = Some temps"
    and "map_of h ''windspeed_10m'' = Some winds"
    and "map_of h ''winddirection_10m'' = Some winddirs"
  shows "if length temps = length tms \<and> length winds = length tms
            \<and> length winddirs = length tms
         then \<exists>rows. fetch_city_hourly net now c lat lon d = Inr rows
               \<and> length rows = length tms
               \<and> (\<forall>i<length tms. rows ! i =
                     (i, \<lparr>city = c, time = tms ! i, temp = temps ! i,
                          windspeed = winds ! i, winddirection = winddirs ! i\<rparr>))
         else fetch_city_hourly net now c lat lon d = Inl ValueError"
proof -
  from assms(3) have ne: "h \<noteq> []" by auto
  have f: "fetch_city_hourly net now c lat lon d = DataFrame c tms temps winds winddirs"
    using assms ne by (auto simp: fetch_city_hourly_def parse_hourly_def getitem_def)
  show ?thesis
    unfolding f by (simp add: DataFrame_def nth_enumerate_eq)
qed

theorem parallel_arrays_rows_or_error_witness:
  "fetch_city_hourly ragged_net 1000 ''Riyadh'' 24.7136 46.6753 3 = Inl ValueError
   \<and> (\<exists>rows. fetch_city_hourly ex_net 1000 ''Riyadh'' 24.7136 46.6753 3 = Inr rows
        \<and> length rows = 2
        \<and> rows ! 0 = (0, \<lparr>city = ''Riyadh'', time = 0, temp = 41, windspeed = 3, winddirection = 90\<rparr>)
        \<and> rows ! 1 = (1, \<lparr>city = ''Riyadh'', time = 1, temp = 39, windspeed = 4, winddirection = 100\<rparr>))"
proof -
  have 1: "fetch_city_hourly ragged_net 1000 ''Riyadh'' 24.7136 46.6753 3 = Inl ValueError"
    using parallel_arrays_rows_or_error[of ragged_net "24.7136" "46.6753" 3 1000 200
        "ex_hourly [0, 1] [41] [3, 4] [90, 100]" "[0, 1]" "[41]" "[3, 4]" "[90, 100]" "''Riyadh''"]
    by (simp add: ragged_net_def ex_hourly_def)
  have "\<exists>rows. fetch_city_hourly ex_net 1000 ''Riyadh'' 24.7136 46.6753 3 = Inr rows
        \<and> length rows = length [0, 1 :: real]
        \<and> (\<forall>i<length [0, 1 :: real]. rows ! i =
              (i, \<lparr>city = ''Riyadh'', time = [0, 1] ! i, temp = [41, 39] ! i,
                   windspeed = [3, 4] ! i, winddirection = [90, 100] ! i\<rparr>))"
    using parallel_arrays_rows_or_error[of ex_net "24.7136" "46.6753" 3 1000 200
        "ex_hourly [0, 1] [41, 39] [3, 4] [90, 100]" "[0, 1]" "[41, 39]" "[3, 4]" "[90, 100]" "''Riyadh''"]
    by (simp add: ex_net_def ex_hourly_def)
  then obtain rows where r: "fetch_city_hourly ex_net 1000 ''Riyadh'' 24.7136 46.6753 3 = Inr rows"
    "length rows = 2"
    "\<forall>i<2. rows ! i = (i, \<lparr>city = ''Riyadh'', time = [0, 1] ! i, temp = [41, 39] ! i,
                   windspeed = [3, 4] ! i, winddirection = [90, 100] ! i\<rparr>)"
    by auto
  from r(3) have "rows ! 0 = (0, \<lparr>city = ''Riyadh'', time = 0, temp = 41, windspeed = 3, winddirection = 90\<rparr>)"
    "rows ! 1 = (1, \<lparr>city = ''Riyadh'', time = 1, temp = 39, windspeed = 4, winddirection = 100\<rparr>)"
    by force+
  with r 1 show ?thesis by blast
qed


section \<open>Aggregation\<close>

lemma all_skipped_no_successes:
  assumes "\<forall>c\<in>set sel. (\<exists>e. city_result net now d w c = Inl e) \<or> city_result net now d w c = Inr []"
  shows "successes net now d w sel = []"
  using assms by (induction sel) (auto simp: successes_def)

lemma subset_removeAll: "set sel \<subseteq> S \<Longrightarrow> set (removeAll c sel) \<subseteq> S"
  by auto

lemma merged_rows:
  "mset (map snd (sort_values_time (concat_ignore_index dfs))) = mset (map snd (concat dfs))"
proof -
  have "mset (map snd (sort_values_time (concat_ignore_index dfs)))
      = mset (map snd (concat_ignore_index dfs))"
    using sort_values_time_mset[of "concat_ignore_index dfs"] by (metis mset_map)
  then show ?thesis by (simp add: rows_concat_ignore_index)
qed

lemma two_cities:
  assumes "distinct sel" "set sel = {A, B}" "A \<noteq> B"
  shows "sel = [A, B] \<or> sel = [B, A]"
proof -
  have "length sel = 2" using assms distinct_card[of sel] by simp
  then obtain x y where xy: "sel = [x, y]"
    by (cases sel; cases "tl sel") auto
  with assms(2) have "{x, y} = {A, B}" by simp
  then show ?thesis using xy by (auto simp: doubleton_eq_iff)
qed

text \<open>
  C1, as amended. When every selected city is in the registry and at least one returns a
  non-empty table, the build reaches the derived state, the rows of the merged table are
  exactly (as a multiset) the rows of the successful per-city tables, and the merged
  table is sorted by timestamp ascending. Nothing is promised about rows with equal
  timestamps.
\<close>

theorem merged_is_sorted_union:
  assumes "set sel \<subseteq> fst ` set CITIES"
    and "\<exists>c\<in>set sel. \<exists>f. city_result net now d w c = Inr f \<and> f \<noteq> []"
  shows "\<exists>v errs w'. build net now sel d w = (Derived v errs, w')
     \<and> mset (map snd (df v)) = mset (map snd (concat (successes net now d w sel)))
     \<and> sorted (map (\<lambda>r. time (snd r)) (df v))"
proof -
  from assms(2) obtain c f where "c \<in> set sel" "city_result net now d w c = Inr f" "f \<noteq> []"
    by blast
  then have ne: "concat (successes net now d w sel) \<noteq> []" by (rule successes_nonempty_rows)
  then have ne': "successes net now d w sel \<noteq> []" by auto
  from derive_ok[OF ne] obtain v where v: "derive (successes net now d w sel) = Inr v"
    "df v = sort_values_time (concat_ignore_index (successes net now d w sel))" by blast
  have "fst (build net now sel d w) = Derived v (warnings net now d w sel)"
    using build_fst[OF assms(1), of net now d w] ne' v(1) by simp
  then have b: "build net now sel d w
      = (Derived v (warnings net now d w sel), snd (build net now sel d w))"
    by (metis prod.collapse)
  have m: "mset (map snd (df v)) = mset (map snd (concat (successes net now d w sel)))"
    unfolding v(2) by (rule merged_rows)
  have s: "sorted (map (\<lambda>r. time (snd r)) (df v))"
    unfolding v(2) by (rule sort_values_time_sorted)
  from b m s show ?thesis by blast
qed

theorem merged_is_sorted_union_witness:
  "set [''Riyadh'', ''Jeddah'', ''Dammam'', ''Abha''] \<subseteq> fst ` set CITIES
   \<and> (\<exists>c\<in>set [''Riyadh'', ''Jeddah'', ''Dammam'', ''Abha''].
        \<exists>f. city_result ex_net 1000 3 empty_world c = Inr f \<and> f \<noteq> [])
   \<and> (\<exists>v errs w'.
        build ex_net 1000 [''Riyadh'', ''Jeddah'', ''Dammam'', ''Abha''] 3 empty_world
          = (Derived v errs, w')
        \<and> mset (map snd (df v)) = mset (map snd (concat ex_all_dfs))
        \<and> sorted (map (\<lambda>r. time (snd r)) (df v)))"
proof -
  let ?sel = "[''Riyadh'', ''Jeddah'', ''Dammam'', ''Abha'']"
  have a: "set ?sel \<subseteq> fst ` set CITIES" by (simp add: CITIES_def)
  have r: "city_result ex_net 1000 3 empty_world ''Riyadh'' = Inr (hd ex_all_dfs)"
    by (simp add: ex_riyadh ex_all_dfs_def)
  have b: "\<exists>c\<in>set ?sel. \<exists>f. city_result ex_net 1000 3 empty_world c = Inr f \<and> f \<noteq> []"
    by (rule bexI[of _ "''Riyadh''"], rule exI[of _ "hd ex_all_dfs"])
       (simp_all add: r, simp add: ex_all_dfs_def)
  from merged_is_sorted_union[OF a b] a b show ?thesis unfolding ex_successes by blast
qed

text \<open>
  C1, as stated, fails: with Riyadh selected before Jeddah and one row each at the same
  hour, the merged table keeps Riyadh first; it is not ordered by city name among equal
  timestamps.
\<close>

theorem merged_ties_by_city_counterexample:
  "fst (build tie_net 1000 [''Riyadh'', ''Jeddah''] 3 empty_world) =
     Derived
       \<lparr>df = [(0, \<lparr>city = ''Riyadh'', time = 0, temp = 41, windspeed = 3, winddirection = 90\<rparr>),
              (1, \<lparr>city = ''Jeddah'', time = 0, temp = 38, windspeed = 9, winddirection = 10\<rparr>)],
        num_cities = 2, num_records = 2,
        hottest_row = \<lparr>city = ''Riyadh'', time = 0, temp = 41, windspeed = 3, winddirection = 90\<rparr>,
        windiest_row = \<lparr>city = ''Jeddah'', time = 0, temp = 38, windspeed = 9, winddirection = 10\<rparr>,
        latest = [(1, \<lparr>city = ''Jeddah'', time = 0, temp = 38, windspeed = 9, winddirection = 10\<rparr>),
                  (0, \<lparr>city = ''Riyadh'', time = 0, temp = 41, windspeed = 3, winddirection = 90\<rparr>)]\<rparr>
       []
   \<and> \<not> sorted_by_time_then_city
        [(0, \<lparr>city = ''Riyadh'', time = 0, temp = 41, windspeed = 3, winddirection = 90\<rparr>),
         (1, \<lparr>city = ''Jeddah'', time = 0, temp = 38, windspeed = 9, winddirection = 10\<rparr>)]"
  by (simp add: build_def cache_defs fetch_defs tie_net_def view_defs sorted_by_time_then_city_def)

text \<open>
  C2. Whenever the merged table is non-empty the views are produced; the hottest row is
  a row of the merged table with the maximum temperature, no row with that temperature
  has an earlier timestamp, and likewise for the windiest row and wind speed.
\<close>

theorem extremes_are_earliest_argmax:
  assumes "concat all_dfs \<noteq> []"
  shows "\<exists>v. derive all_dfs = Inr v
     \<and> df v = sort_values_time (concat_ignore_index all_dfs)
     \<and> hottest_row v \<in> snd ` set (df v)
     \<and> (\<forall>q\<in>set (df v). temp (snd q) \<le> temp (hottest_row v))
     \<and> (\<forall>q\<in>set (df v). temp (snd q) = temp (hottest_row v)
            \<longrightarrow> time (hottest_row v) \<le> time (snd q))
     \<and> windiest_row v \<in> snd ` set (df v)
     \<and> (\<forall>q\<in>set (df v). windspeed (snd q) \<le> windspeed (windiest_row v))
     \<and> (\<forall>q\<in>set (df v). windspeed (snd q) = windspeed (windiest_row v)
            \<longrightarrow> time (windiest_row v) \<le> time (snd q))"
proof -
  from derive_ok[OF assms] obtain v hl wl where v: "derive all_dfs = Inr v"
    and m: "df v = sort_values_time (concat_ignore_index all_dfs)"
    and h: "idxmax temp (df v) = Inr hl" "loc (df v) hl = Inr (hottest_row v)"
    and x: "idxmax windspeed (df v) = Inr wl" "loc (df v) wl = Inr (windiest_row v)"
    by blast
  have d: "distinct (map fst (df v))"
    unfolding m by (rule distinct_labels_sorted[OF distinct_labels_concat])
  have s: "sorted (map (\<lambda>r. time (snd r)) (df v))"
    unfolding m by (rule sort_values_time_sorted)
  from extreme_row[OF d s h] extreme_row[OF d s x] v m show ?thesis by blast
qed

theorem extremes_are_earliest_argmax_witness:
  "concat ex_all_dfs \<noteq> []
   \<and> (\<exists>v. derive ex_all_dfs = Inr v
     \<and> hottest_row v = \<lparr>city = ''Riyadh'', time = 0, temp = 41, windspeed = 3, winddirection = 90\<rparr>
     \<and> windiest_row v = \<lparr>city = ''Jeddah'', time = 0, temp = 38, windspeed = 9, winddirection = 10\<rparr>
     \<and> hottest_row v \<in> snd ` set (df v)
     \<and> (\<forall>q\<in>set (df v). temp (snd q) \<le> temp (hottest_row v))
     \<and> (\<forall>q\<in>set (df v). temp (snd q) = temp (hottest_row v)
            \<longrightarrow> time (hottest_row v) \<le> time (snd q))
     \<and> windiest_row v \<in> snd ` set (df v)
     \<and> (\<forall>q\<in>set (df v). windspeed (snd q) \<le> windspeed (windiest_row v))
     \<and> (\<forall>q\<in>set (df v). windspeed (snd q) = windspeed (windiest_row v)
            \<longrightarrow> time (windiest_row v) \<le> time (snd q)))"
proof -
  have a: "concat ex_all_dfs \<noteq> []" by (simp add: ex_all_dfs_def)
  from extremes_are_earliest_argmax[OF a] obtain v where v: "derive ex_all_dfs = Inr v"
    and p: "hottest_row v \<in> snd ` set (df v)"
      "\<forall>q\<in>set (df v). temp (snd q) \<le> temp (hottest_row v)"
      "\<forall>q\<in>set (df v). temp (snd q) = temp (hottest_row v) \<longrightarrow> time (hottest_row v) \<le> time (snd q)"
      "windiest_row v \<in> snd ` set (df v)"
      "\<forall>q\<in>set (df v). windspeed (snd q) \<le> windspeed (windiest_row v)"
      "\<forall>q\<in>set (df v). windspeed (snd q) = windspeed (windiest_row v) \<longrightarrow> time (windiest_row v) \<le> time (snd q)"
    by blast
  from v have hv: "hottest_row v = \<lparr>city = ''Riyadh'', time = 0, temp = 41, windspeed = 3, winddirection = 90\<rparr>"
    "windiest_row v = \<lparr>city = ''Jeddah'', time = 0, temp = 38, windspeed = 9, winddirection = 10\<rparr>"
    unfolding ex_derive by auto
  show ?thesis
    by (rule conjI[OF a], rule exI[of _ v]) (use v p hv in simp)
qed

text \<open>
  C3. Whenever the merged table is non-empty, the snapshot has exactly one row per
  distinct city of the merged table, and the row of a city is a row of the merged table
  whose timestamp is the maximum among that city's rows.
\<close>

theorem latest_snapshot_is_max_timestamp:
  assumes "concat all_dfs \<noteq> []"
  shows "\<exists>v. derive all_dfs = Inr v
     \<and> distinct (map (\<lambda>q. city (snd q)) (latest v))
     \<and> (\<lambda>q. city (snd q)) ` set (latest v) = (\<lambda>q. city (snd q)) ` set (df v)
     \<and> (\<forall>r\<in>set (latest v). r \<in> set (df v)
          \<and> (\<forall>q\<in>set (df v). city (snd q) = city (snd r) \<longrightarrow> time (snd q) \<le> time (snd r)))"
proof -
  from derive_ok[OF assms] obtain v where v: "derive all_dfs = Inr v"
    and l: "latest v = latest_rows (df v)" by blast
  from latest_rows_spec[of "df v"] v l show ?thesis by auto
qed

theorem latest_snapshot_is_max_timestamp_witness:
  "concat ex_all_dfs \<noteq> []
   \<and> (\<exists>v. derive ex_all_dfs = Inr v
     \<and> map snd (latest v) =
         [\<lparr>city = ''Jeddah'', time = 1, temp = 37, windspeed = 2, winddirection = 20\<rparr>,
          \<lparr>city = ''Riyadh'', time = 1, temp = 39, windspeed = 4, winddirection = 100\<rparr>]
     \<and> distinct (map (\<lambda>q. city (snd q)) (latest v))
     \<and> (\<lambda>q. city (snd q)) ` set (latest v) = (\<lambda>q. city (snd q)) ` set (df v)
     \<and> (\<forall>r\<in>set (latest v). r \<in> set (df v)
          \<and> (\<forall>q\<in>set (df v). city (snd q) = city (snd r) \<longrightarrow> time (snd q) \<le> time (snd r))))"
proof -
  have a: "concat ex_all_dfs \<noteq> []" by (simp add: ex_all_dfs_def)
  from latest_snapshot_is_max_timestamp[OF a] obtain v where v: "derive ex_all_dfs = Inr v"
    and p: "distinct (map (\<lambda>q. city (snd q)) (latest v))"
      "(\<lambda>q. city (snd q)) ` set (latest v) = (\<lambda>q. city (snd q)) ` set (df v)"
      "\<forall>r\<in>set (latest v). r \<in> set (df v)
          \<and> (\<forall>q\<in>set (df v). city (snd q) = city (snd r) \<longrightarrow> time (snd q) \<le> time (snd r))"
    by blast
  from v have hv: "map snd (latest v) =
         [\<lparr>city = ''Jeddah'', time = 1, temp = 37, windspeed = 2, winddirection = 20\<rparr>,
          \<lparr>city = ''Riyadh'', time = 1, temp = 39, windspeed = 4, winddirection = 100\<rparr>]"
    unfolding ex_derive by auto
  show ?thesis
    by (rule conjI[OF a], rule exI[of _ v]) (use v p hv in simp)
qed

text \<open>
  C10. Whenever the merged table is non-empty, the snapshot table is ordered by city
  name ascending.
\<close>

theorem latest_snapshot_sorted_by_city:
  assumes "concat all_dfs \<noteq> []"
  shows "\<exists>v. derive all_dfs = Inr v \<and> sorted (map (\<lambda>q. city (snd q)) (latest v))"
proof -
  from derive_ok[OF assms] obtain v where v: "derive all_dfs = Inr v"
    and l: "latest v = latest_rows (df v)" by blast
  from latest_rows_sorted[of "df v"] v l show ?thesis by auto
qed

theorem latest_snapshot_sorted_by_city_witness:
  "concat ex_all_dfs \<noteq> []
   \<and> (\<exists>v. derive ex_all_dfs = Inr v
        \<and> map (\<lambda>q. city (snd q)) (latest v) = [''Jeddah'', ''Riyadh'']
        \<and> sorted (map (\<lambda>q. city (snd q)) (latest v)))"
proof -
  have a: "concat ex_all_dfs \<noteq> []" by (simp add: ex_all_dfs_def)
  from latest_snapshot_sorted_by_city[OF a] obtain v where v: "derive ex_all_dfs = Inr v"
    and p: "sorted (map (\<lambda>q. city (snd q)) (latest v))" by blast
  from v have hv: "map (\<lambda>q. city (snd q)) (latest v) = [''Jeddah'', ''Riyadh'']"
    unfolding ex_derive by auto
  show ?thesis
    by (rule conjI[OF a], rule exI[of _ v]) (use v p hv in simp)
qed


lemma build_pair:
  "fst (build net now sel d w) = r \<Longrightarrow> \<exists>w'. build net now sel d w = (r, w')"
  by (metis prod.collapse)

text \<open>
  C4. In a selection of distinct registered cities where city A fails and city B returns
  data, the build reaches the derived state, exactly one warning is reported for A, and
  the merged table holds the rows of the successful cities, none from A's fetch; when A
  and B are the whole selection, it holds B's rows only and A's warning is the only one.
\<close>

theorem partial_failure_is_tolerated:
  assumes "distinct sel" and "set sel \<subseteq> fst ` set CITIES"
    and "A \<in> set sel" and "B \<in> set sel"
    and "city_result net now d w A = Inl e"
    and "city_result net now d w B = Inr f" and "f \<noteq> []"
  shows "\<exists>v errs w'. build net now sel d w = (Derived v errs, w')
     \<and> filter (\<lambda>p. fst p = A) errs = [(A, e)]
     \<and> mset (map snd (df v))
          = mset (map snd (concat (successes net now d w (removeAll A sel))))
     \<and> (set sel = {A, B} \<longrightarrow> mset (map snd (df v)) = mset (map snd f) \<and> errs = [(A, e)])"
proof -
  let ?S = "successes net now d w sel"
  let ?W = "warnings net now d w sel"
  have ne: "concat ?S \<noteq> []" using assms(4,6,7) by (rule successes_nonempty_rows)
  then have ne': "?S \<noteq> []" by auto
  from derive_ok[OF ne] obtain v where v: "derive ?S = Inr v"
    "df v = sort_values_time (concat_ignore_index ?S)" by blast
  have "fst (build net now sel d w) = Derived v ?W"
    using build_fst[OF assms(2), of net now d w] ne' v(1) by simp
  from build_pair[OF this] obtain w' where b: "build net now sel d w = (Derived v ?W, w')" ..
  have 1: "filter (\<lambda>p. fst p = A) ?W = [(A, e)]"
    using assms(1,3,5) by (rule warnings_of_city)
  have m: "mset (map snd (df v)) = mset (map snd (concat ?S))"
    unfolding v(2) by (rule merged_rows)
  have sk: "successes net now d w (removeAll A sel) = ?S"
    by (rule successes_skip) (use assms(5) in blast)
  have 2: "mset (map snd (df v))
      = mset (map snd (concat (successes net now d w (removeAll A sel))))"
    using m sk by simp
  have 3: "set sel = {A, B} \<longrightarrow> mset (map snd (df v)) = mset (map snd f) \<and> ?W = [(A, e)]"
  proof
    assume s: "set sel = {A, B}"
    have "A \<noteq> B" using assms(5,6) by auto
    from two_cities[OF assms(1) s this] have "?S = [f] \<and> ?W = [(A, e)]"
      using assms(5,6,7) by (auto simp: successes_def warnings_def)
    with m show "mset (map snd (df v)) = mset (map snd f) \<and> ?W = [(A, e)]" by simp
  qed
  from b 1 2 3 show ?thesis by blast
qed

theorem partial_failure_is_tolerated_witness:
  "distinct [''Abha'', ''Riyadh''] \<and> set [''Abha'', ''Riyadh''] \<subseteq> fst ` set CITIES
   \<and> ''Abha'' \<in> set [''Abha'', ''Riyadh''] \<and> ''Riyadh'' \<in> set [''Abha'', ''Riyadh'']
   \<and> city_result ex_net 1000 3 empty_world ''Abha'' = Inl ConnectionError
   \<and> city_result ex_net 1000 3 empty_world ''Riyadh'' = Inr (hd ex_all_dfs)
   \<and> hd ex_all_dfs \<noteq> []
   \<and> (\<exists>v errs w'. build ex_net 1000 [''Abha'', ''Riyadh''] 3 empty_world = (Derived v errs, w')
        \<and> mset (map snd (df v)) = mset (map snd (hd ex_all_dfs))
        \<and> errs = [(''Abha'', ConnectionError)])"
proof -
  let ?sel = "[''Abha'', ''Riyadh'']"
  have a: "distinct ?sel" by simp
  have b: "set ?sel \<subseteq> fst ` set CITIES" by (simp add: CITIES_def)
  have c: "''Abha'' \<in> set ?sel" and d: "''Riyadh'' \<in> set ?sel" by simp_all
  have r: "city_result ex_net 1000 3 empty_world ''Riyadh'' = Inr (hd ex_all_dfs)"
    by (simp add: ex_riyadh ex_all_dfs_def)
  have n: "hd ex_all_dfs \<noteq> []" by (simp add: ex_all_dfs_def)
  have s: "set ?sel = {''Abha'', ''Riyadh''}" by simp
  from partial_failure_is_tolerated[OF a b c d ex_abha r n] s
  obtain v errs w' where
    "build ex_net 1000 ?sel 3 empty_world = (Derived v errs, w')"
    "mset (map snd (df v)) = mset (map snd (hd ex_all_dfs))"
    "errs = [(''Abha'', ConnectionError)]" by blast
  then have "\<exists>v errs w'. build ex_net 1000 ?sel 3 empty_world = (Derived v errs, w')
        \<and> mset (map snd (df v)) = mset (map snd (hd ex_all_dfs))
        \<and> errs = [(''Abha'', ConnectionError)]" by blast
  with a b c d ex_abha r n show ?thesis by blast
qed

text \<open>
  C5. When every selected city is registered and each one fails or returns an empty
  table, the build stops in the no-data state, which carries the warnings and no view.
\<close>

theorem total_failure_is_no_data:
  assumes "set sel \<subseteq> fst ` set CITIES"
    and "\<forall>c\<in>set sel. (\<exists>e. city_result net now d w c = Inl e)
            \<or> city_result net now d w c = Inr []"
  shows "fst (build net now sel d w) = NoData (warnings net now d w sel)"
  using build_fst[OF assms(1), of net now d w] all_skipped_no_successes[OF assms(2)]
  by simp

theorem total_failure_is_no_data_witness:
  "set [''Dammam'', ''Abha''] \<subseteq> fst ` set CITIES
   \<and> city_result ex_net 1000 3 empty_world ''Dammam'' = Inr []
   \<and> city_result ex_net 1000 3 empty_world ''Abha'' = Inl ConnectionError
   \<and> fst (build ex_net 1000 [''Dammam'', ''Abha''] 3 empty_world)
        = NoData [(''Abha'', ConnectionError)]"
proof -
  have a: "set [''Dammam'', ''Abha''] \<subseteq> fst ` set CITIES" by (simp add: CITIES_def)
  have b: "\<forall>c\<in>set [''Dammam'', ''Abha''].
      (\<exists>e. city_result ex_net 1000 3 empty_world c = Inl e)
         \<or> city_result ex_net 1000 3 empty_world c = Inr []"
    by (simp add: ex_dammam ex_abha)
  have w: "warnings ex_net 1000 3 empty_world [''Dammam'', ''Abha'']
      = [(''Abha'', ConnectionError)]"
    by (simp add: warnings_def ex_dammam ex_abha)
  from total_failure_is_no_data[OF a b] a ex_dammam ex_abha show ?thesis
    unfolding w by simp
qed

text \<open>
  C8. When the request of a registered city is answered successfully, without an hourly
  series, and the cache holds no live entry for it, the fetcher returns the empty table
  and raises nothing; the run then has the outcome (views and warnings) it has with
  that city left out of the selection.
\<close>

theorem no_hourly_series_skips_city:
  assumes "map_of CITIES c = Some (lat, lon)"
    and "lookup_live w now (c, lat, lon, d) = None"
    and "net (lat, lon, d) now = Response status (JSON data)"
    and "\<not> (400 \<le> status \<and> status < 600)"
    and "data = None \<or> data = Some []"
    and "set sel \<subseteq> fst ` set CITIES"
  shows "fetch_city_hourly net now c lat lon d = Inr []
     \<and> fst (build net now sel d w) = fst (build net now (removeAll c sel) d w)"
proof -
  have f: "fetch_city_hourly net now c lat lon d = Inr []"
    using assms(3,4,5) by (auto simp: fetch_city_hourly_def parse_hourly_def)
  have r: "city_result net now d w c = Inr []"
    using assms(1,2) f by (simp add: city_result_def cached_fetch_city_hourly_def)
  have s: "successes net now d w (removeAll c sel) = successes net now d w sel"
    by (rule successes_skip) (use r in blast)
  have x: "warnings net now d w (removeAll c sel) = warnings net now d w sel"
    using r by (rule warnings_skip)
  have sub: "set (removeAll c sel) \<subseteq> fst ` set CITIES"
    using assms(6) by (rule subset_removeAll)
  have "fst (build net now sel d w) = fst (build net now (removeAll c sel) d w)"
    unfolding build_fst[OF assms(6)] build_fst[OF sub] s x by (rule refl)
  with f show ?thesis by (rule conjI)
qed

theorem no_hourly_series_skips_city_witness:
  "map_of CITIES ''Dammam'' = Some (26.3927, 49.9777)
   \<and> lookup_live empty_world 1000 (''Dammam'', 26.3927, 49.9777, 3) = None
   \<and> ex_net (26.3927, 49.9777, 3) 1000 = Response 200 (JSON None)
   \<and> set [''Riyadh'', ''Jeddah'', ''Dammam'', ''Abha''] \<subseteq> fst ` set CITIES
   \<and> fetch_city_hourly ex_net 1000 ''Dammam'' 26.3927 49.9777 3 = Inr []
   \<and> fst (build ex_net 1000 [''Riyadh'', ''Jeddah'', ''Dammam'', ''Abha''] 3 empty_world)
       = fst (build ex_net 1000 [''Riyadh'', ''Jeddah'', ''Abha''] 3 empty_world)"
proof -
  have a: "map_of CITIES ''Dammam'' = Some (26.3927, 49.9777)" by (simp add: CITIES_def)
  have b: "lookup_live empty_world 1000 (''Dammam'', 26.3927, 49.9777, 3) = None"
    by (simp add: lookup_live_def empty_world_def)
  have c: "ex_net (26.3927, 49.9777, 3) 1000 = Response 200 (JSON None)"
    by (simp add: ex_net_def)
  have d: "\<not> (400 \<le> (200::nat) \<and> (200::nat) < 600)" by simp
  have e: "(None :: hourly option) = None \<or> None = Some []" by simp
  have g: "set [''Riyadh'', ''Jeddah'', ''Dammam'', ''Abha''] \<subseteq> fst ` set CITIES"
    by (simp add: CITIES_def)
  from no_hourly_series_skips_city[where c = "''Dammam''" and lat = "26.3927" and lon = "49.9777"
      and w = empty_world and now = 1000 and d = 3 and net = ex_net and status = 200
      and data = None and sel = "[''Riyadh'', ''Jeddah'', ''Dammam'', ''Abha'']", OF a b c d e g]
    a b c g show ?thesis by simp
qed


end
